theory Spec2Isabelle
  imports Main "HOL-Library.Word" "HOL-Library.Sublist"
begin

section \<open>JavaScript strings\<close>

text \<open>
  A JavaScript string is a sequence of 16-bit code units. The literals of \<^verbatim>\<open>App.js\<close>
  are ASCII, written here through \<open>js\<close>.
\<close>

type_synonym jsstring = "16 word list"

definition js :: "string \<Rightarrow> jsstring" where
  "js = map of_char"

text \<open>
  \<^verbatim>\<open>String.prototype.trim\<close> removes the code units WhiteSpace and LineTerminator of
  ECMA-262 from both ends: TAB, LF, VT, FF, CR, SP, NBSP, the space separators (category Zs),
  LS, PS and the byte order mark.
\<close>

definition isWhiteSpace :: "16 word \<Rightarrow> bool" where
  "isWhiteSpace c \<longleftrightarrow>
     c = 0x09 \<or> c = 0x0A \<or> c = 0x0B \<or> c = 0x0C \<or> c = 0x0D \<or> c = 0x20 \<or> c = 0xA0 \<or>
     c = 0x1680 \<or> (0x2000 \<le> c \<and> c \<le> 0x200A) \<or> c = 0x2028 \<or> c = 0x2029 \<or>
     c = 0x202F \<or> c = 0x205F \<or> c = 0x3000 \<or> c = 0xFEFF"

definition trim :: "jsstring \<Rightarrow> jsstring" where
  "trim s = rev (dropWhile isWhiteSpace (rev (dropWhile isWhiteSpace s)))"

text \<open>
  \<^verbatim>\<open>String.prototype.includes\<close>: the search string is looked for at every position of
  the receiver, from the left.
\<close>

fun includes_js :: "jsstring \<Rightarrow> jsstring \<Rightarrow> bool" where
  "includes_js [] searchString = (searchString = [])"
| "includes_js (c # cs) searchString = (prefix searchString (c # cs) \<or> includes_js cs searchString)"

section \<open>Notes\<close>

text \<open>
  The objects held in the \<^verbatim>\<open>notes\<close> array: \<^verbatim>\<open>id\<close>, \<^verbatim>\<open>title\<close>, \<^verbatim>\<open>content\<close>, \<^verbatim>\<open>created\<close>
  and, once edited, \<^verbatim>\<open>updated\<close>.
\<close>

record "note" =
  id_note :: jsstring
  title :: jsstring
  content :: jsstring
  created :: jsstring
  updated :: "jsstring option"

text \<open>
  \<^verbatim>\<open>notes.filter(note => (note.title + " " + note.content).toLowerCase()
     .includes(search.toLowerCase()))\<close>.
  \<^verbatim>\<open>toLowerCase\<close> applies the lower-case mapping of the Unicode character database, which is
  not part of the repository: it is the parameter \<open>toLowerCase\<close>.
\<close>

definition filteredNotes ::
  "(jsstring \<Rightarrow> jsstring) \<Rightarrow> note list \<Rightarrow> jsstring \<Rightarrow> note list" where
  "filteredNotes toLowerCase ns search =
     filter (\<lambda>note. includes_js (toLowerCase (title note @ js '' '' @ content note))
                             (toLowerCase search)) ns"

text \<open>The lower-case mapping restricted to ASCII, for evaluating concrete inputs.\<close>

definition asciiLower :: "jsstring \<Rightarrow> jsstring" where
  "asciiLower = map (\<lambda>c. if 0x41 \<le> c \<and> c \<le> 0x5A then c + 0x20 else c)"

section \<open>Identifiers\<close>

text \<open>
  \<^verbatim>\<open>const generateId = () => Date.now().toString() + Math.random().toString(36).substr(2, 8)\<close>.
  The clock reading \<^verbatim>\<open>Date.now()\<close> (an integral number of milliseconds) and the text
  \<^verbatim>\<open>Math.random().toString(36)\<close> come from the environment; the decimal rendering of the
  clock and \<^verbatim>\<open>substr(2, 8)\<close> are computed here.
\<close>

definition digit :: "nat \<Rightarrow> 16 word" where
  "digit d = of_nat (48 + d)"

fun digits :: "nat \<Rightarrow> jsstring" where
  "digits n = (if n < 10 then [digit n] else digits (n div 10) @ [digit (n mod 10)])"

declare digits.simps [simp del]

definition toString10 :: "int \<Rightarrow> jsstring" where
  "toString10 i = (if i < 0 then 0x2D # digits (nat (- i)) else digits (nat i))"

definition substr :: "jsstring \<Rightarrow> nat \<Rightarrow> nat \<Rightarrow> jsstring" where
  "substr s start len = take len (drop start s)"

definition generateId :: "int \<Rightarrow> jsstring \<Rightarrow> jsstring" where
  "generateId dateNow random36 = toString10 dateNow @ substr random36 2 8"

section \<open>Serialising the collection\<close>

text \<open>
  \<^verbatim>\<open>JSON.stringify\<close> on a string (QuoteJSONString of ECMA-262): the quotation mark, the
  reverse solidus and the control characters are escaped, a surrogate that is not part of a
  pair is written as \<^verbatim>\<open>\uXXXX\<close> with lower-case hexadecimal digits, and every other code
  unit is copied.
\<close>

definition hexDigit :: "nat \<Rightarrow> 16 word" where
  "hexDigit d = of_nat (if d < 10 then 48 + d else 87 + d)"

definition unicodeEscape :: "16 word \<Rightarrow> jsstring" where
  "unicodeEscape c =
     [0x5C, 0x75, hexDigit (unat c div 4096), hexDigit (unat c div 256 mod 16),
      hexDigit (unat c div 16 mod 16), hexDigit (unat c mod 16)]"

definition isLeadingSurrogate :: "16 word \<Rightarrow> bool" where
  "isLeadingSurrogate c \<longleftrightarrow> 0xD800 \<le> c \<and> c \<le> 0xDBFF"

definition isTrailingSurrogate :: "16 word \<Rightarrow> bool" where
  "isTrailingSurrogate c \<longleftrightarrow> 0xDC00 \<le> c \<and> c \<le> 0xDFFF"

definition quoteUnit :: "16 word \<Rightarrow> jsstring" where
  "quoteUnit c =
     (if c = 0x08 then [0x5C, 0x62]
      else if c = 0x09 then [0x5C, 0x74]
      else if c = 0x0A then [0x5C, 0x6E]
      else if c = 0x0C then [0x5C, 0x66]
      else if c = 0x0D then [0x5C, 0x72]
      else if c = 0x22 then [0x5C, 0x22]
      else if c = 0x5C then [0x5C, 0x5C]
      else if c < 0x20 \<or> isLeadingSurrogate c \<or> isTrailingSurrogate c then unicodeEscape c
      else [c])"

fun quoteChars :: "jsstring \<Rightarrow> jsstring" where
  "quoteChars [] = []"
| "quoteChars [c] = quoteUnit c"
| "quoteChars (c # d # cs) =
     (if isLeadingSurrogate c \<and> isTrailingSurrogate d then c # d # quoteChars cs
      else quoteUnit c @ quoteChars (d # cs))"

definition quoteJSONString :: "jsstring \<Rightarrow> jsstring" where
  "quoteJSONString s = 0x22 # quoteChars s @ [0x22]"

text \<open>
  \<^verbatim>\<open>JSON.stringify(notes)\<close> without indentation. The keys of a note are written in the
  order in which \<^verbatim>\<open>handleSaveNote\<close> builds the object:
  \<^verbatim>\<open>{ id: newId, ...edited, created: ... }\<close>, then \<^verbatim>\<open>{ ...n, ...edited, updated: ... }\<close>.
\<close>

definition stringifyNote :: "note \<Rightarrow> jsstring" where
  \<open>stringifyNote n =
     js ''{"id":'' @ quoteJSONString (id_note n) @
     js '',"title":'' @ quoteJSONString (title n) @
     js '',"content":'' @ quoteJSONString (content n) @
     js '',"created":'' @ quoteJSONString (created n) @
     (case updated n of None \<Rightarrow> [] | Some u \<Rightarrow> js '',"updated":'' @ quoteJSONString u) @
     js ''}''\<close>

fun stringifyElements :: "note list \<Rightarrow> jsstring" where
  "stringifyElements [] = []"
| "stringifyElements [n] = stringifyNote n"
| "stringifyElements (n # m # ns) = stringifyNote n @ 0x2C # stringifyElements (m # ns)"

definition JSON_stringify :: "note list \<Rightarrow> jsstring" where
  "JSON_stringify ns = 0x5B # stringifyElements ns @ [0x5D]"

section \<open>The state of the application\<close>

text \<open>
  What the application does to its environment: reads and writes of \<^verbatim>\<open>window.localStorage\<close>,
  \<^verbatim>\<open>window.confirm\<close> and \<^verbatim>\<open>alert\<close>. They are recorded in the order in which they happen.
\<close>

datatype effect =
    GetItem jsstring
  | SetItem jsstring jsstring
  | Confirm jsstring
  | Alert jsstring

text \<open>
  The four \<^verbatim>\<open>useState\<close> cells of \<^verbatim>\<open>App\<close> (\<^verbatim>\<open>null\<close> is \<open>None\<close>), the storage of the
  browser and the record of effects.
\<close>

record app =
  "notes" :: "note list"
  search :: jsstring
  selectedNoteId :: "jsstring option"
  isCreatingNew :: bool
  localStorage :: "jsstring \<rightharpoonup> jsstring"
  effects :: "effect list"

text \<open>
  What a handler reads from its environment when it saves: \<^verbatim>\<open>Date.now()\<close>,
  \<^verbatim>\<open>Math.random().toString(36)\<close> and \<^verbatim>\<open>new Date().toISOString()\<close>.
\<close>

record env =
  dateNow :: int
  random36 :: jsstring
  isoNow :: jsstring

definition perform :: "effect \<Rightarrow> app \<Rightarrow> app" where
  "perform e st = st\<lparr>effects := effects st @ [e]\<rparr>"

text \<open>
  \<^verbatim>\<open>useEffect(() => { window.localStorage.setItem("notes", JSON.stringify(notes)); }, [notes])\<close>:
  the effect runs after the first render and after every render in which \<^verbatim>\<open>notes\<close> is a new
  array.
\<close>

definition persistEffect :: "app \<Rightarrow> app" where
  "persistEffect st =
     perform (SetItem (js ''notes'') (JSON_stringify (notes st)))
       (st\<lparr>localStorage := (localStorage st)(js ''notes'' \<mapsto> JSON_stringify (notes st))\<rparr>)"

text \<open>
  \<^verbatim>\<open>setNotes\<close> is only ever called with a newly built array, so each call is followed by the
  effect above.
\<close>

definition setNotes :: "note list \<Rightarrow> app \<Rightarrow> app" where
  "setNotes ns st = persistEffect (st\<lparr>notes := ns\<rparr>)"

text \<open>\<^verbatim>\<open>const selectedNote = notes.find(note => note.id === selectedNoteId)\<close>\<close>

definition selectedNote :: "app \<Rightarrow> note option" where
  "selectedNote st = find (\<lambda>note. Some (id_note note) = selectedNoteId st) (notes st)"

definition handleSearchChange :: "jsstring \<Rightarrow> app \<Rightarrow> app" where
  "handleSearchChange v st = st\<lparr>search := v\<rparr>"

definition handleCreateNoteClick :: "app \<Rightarrow> app" where
  "handleCreateNoteClick st = st\<lparr>selectedNoteId := None, isCreatingNew := True\<rparr>"

definition handleSelectNote :: "jsstring \<Rightarrow> app \<Rightarrow> app" where
  "handleSelectNote noteId st = st\<lparr>selectedNoteId := Some noteId, isCreatingNew := False\<rparr>"

text \<open>The answer of \<^verbatim>\<open>window.confirm\<close> is the argument \<open>answer\<close>.\<close>

definition handleDeleteNote :: "bool \<Rightarrow> jsstring \<Rightarrow> app \<Rightarrow> app" where
  "handleDeleteNote answer noteId st =
     (let st1 = perform (Confirm (js ''Delete this note? This action cannot be undone.'')) st
      in if answer then
           (setNotes (filter (\<lambda>n. id_note n \<noteq> noteId) (notes st1)) st1)
             \<lparr>selectedNoteId :=
                (if selectedNoteId st1 = Some noteId then None else selectedNoteId st1),
              isCreatingNew := False\<rparr>
         else st1)"

text \<open>\<open>edited\<close> is the object \<^verbatim>\<open>{ title, content }\<close> passed by the editor.\<close>

definition handleSaveNote :: "env \<Rightarrow> jsstring \<times> jsstring \<Rightarrow> app \<Rightarrow> app" where
  "handleSaveNote e edited st =
     (if isCreatingNew st then
        (let newId = generateId (dateNow e) (random36 e)
         in (setNotes
               (\<lparr>id_note = newId, title = fst edited, content = snd edited,
                 created = isoNow e, updated = None\<rparr> # notes st) st)
              \<lparr>selectedNoteId := Some newId, isCreatingNew := False\<rparr>)
      else if selectedNote st \<noteq> None then
        setNotes
          (map (\<lambda>n. if Some (id_note n) = selectedNoteId st
                     then n\<lparr>title := fst edited, content := snd edited,
                            updated := Some (isoNow e)\<rparr>
                     else n) (notes st)) st
      else st)"

definition handleCancelEdit :: "app \<Rightarrow> app" where
  "handleCancelEdit st = st\<lparr>selectedNoteId := None, isCreatingNew := False\<rparr>"

text \<open>
  \<^verbatim>\<open>handleSave\<close> of \<^verbatim>\<open>NoteEditor\<close>; \<open>t\<close> and \<open>c\<close> are the editor's \<^verbatim>\<open>title\<close> and
  \<^verbatim>\<open>content\<close> cells, which it does not write.
\<close>

definition handleSave :: "env \<Rightarrow> jsstring \<Rightarrow> jsstring \<Rightarrow> app \<Rightarrow> app" where
  "handleSave e t c st =
     (if trim t = [] \<and> trim c = [] then perform (Alert (js ''Cannot save empty note!'')) st
      else handleSaveNote e (trim t, trim c) st)"

section \<open>Mounting and user events\<close>

text \<open>
  The state after the first render of \<^verbatim>\<open>App\<close> with the collection \<open>ns\<close>: the initialiser of
  \<^verbatim>\<open>notes\<close> has read the storage once, the other cells hold their initial values and the
  persistence effect has run.
\<close>

definition mount :: "note list \<Rightarrow> (jsstring \<rightharpoonup> jsstring) \<Rightarrow> app" where
  "mount ns ls =
     persistEffect
       \<lparr>notes = ns, search = [], selectedNoteId = None, isCreatingNew = False,
        localStorage = ls, effects = [GetItem (js ''notes'')]\<rparr>"

text \<open>
  The events of the rendered page. A list item and its delete button exist for the notes of
  \<^verbatim>\<open>filteredNotes\<close> only; the editor, with its save and cancel controls, is rendered when
  \<^verbatim>\<open>selectedNote || isCreatingNew\<close>.
\<close>

datatype event =
    SearchChange jsstring
  | CreateNoteClick
  | SelectNote jsstring
  | DeleteNote jsstring bool
  | Save env jsstring jsstring
  | CancelEdit

definition listed :: "(jsstring \<Rightarrow> jsstring) \<Rightarrow> app \<Rightarrow> jsstring \<Rightarrow> bool" where
  "listed toLowerCase st noteId \<longleftrightarrow>
     noteId \<in> set (map id_note (filteredNotes toLowerCase (notes st) (search st)))"

definition editorOpen :: "app \<Rightarrow> bool" where
  "editorOpen st \<longleftrightarrow> selectedNote st \<noteq> None \<or> isCreatingNew st"

fun offered :: "(jsstring \<Rightarrow> jsstring) \<Rightarrow> app \<Rightarrow> event \<Rightarrow> bool" where
  "offered lc st (SearchChange v) = True"
| "offered lc st CreateNoteClick = True"
| "offered lc st (SelectNote noteId) = listed lc st noteId"
| "offered lc st (DeleteNote noteId answer) = listed lc st noteId"
| "offered lc st (Save e t c) = editorOpen st"
| "offered lc st CancelEdit = editorOpen st"

fun handle :: "event \<Rightarrow> app \<Rightarrow> app" where
  "handle (SearchChange v) st = handleSearchChange v st"
| "handle CreateNoteClick st = handleCreateNoteClick st"
| "handle (SelectNote noteId) st = handleSelectNote noteId st"
| "handle (DeleteNote noteId answer) st = handleDeleteNote answer noteId st"
| "handle (Save e t c) st = handleSave e t c st"
| "handle CancelEdit st = handleCancelEdit st"

text \<open>A sequence of events, each handled to completion; \<open>None\<close> when one is not offered.\<close>

fun run :: "(jsstring \<Rightarrow> jsstring) \<Rightarrow> event list \<Rightarrow> app \<Rightarrow> app option" where
  "run lc [] st = Some st"
| "run lc (ev # evs) st = (if offered lc st ev then run lc evs (handle ev st) else None)"

text \<open>
  The three cases of the selection: nothing selected, an existing note selected, or a new note
  being created. The flag and an identifier are not set together, and a selected identifier is
  that of a note of the collection.
\<close>

definition selectionOk :: "app \<Rightarrow> bool" where
  "selectionOk st \<longleftrightarrow>
     \<not> (isCreatingNew st \<and> selectedNoteId st \<noteq> None) \<and>
     set_option (selectedNoteId st) \<subseteq> set (map id_note (notes st))"

section \<open>Reading the snapshot\<close>

text \<open>
  The values of \<^verbatim>\<open>JSON.parse\<close>. A number is kept as the text of its literal: the notes hold
  none, and its value as a double is not needed. An object is the list of its members as
  written, so a later member with the same key is the one that counts.
\<close>

datatype json =
    JNull
  | JBool bool
  | JNumber jsstring
  | JString jsstring
  | JArray "json list"
  | JObject "(jsstring \<times> json) list"

text \<open>The grammar of JSON (ECMA-404), read from the left. White space is SP, TAB, LF and CR.\<close>

definition isJsonWs :: "16 word \<Rightarrow> bool" where
  "isJsonWs c \<longleftrightarrow> c = 0x20 \<or> c = 0x09 \<or> c = 0x0A \<or> c = 0x0D"

definition skipWs :: "jsstring \<Rightarrow> jsstring" where
  "skipWs = dropWhile isJsonWs"

text \<open>
  A string: any code unit from U+0020 on except the quotation mark and the reverse solidus,
  or one of the escapes \<^verbatim>\<open>\" \\ \/ \b \f \n \r \t \uXXXX\<close>. \<open>parseChars\<close> starts after the opening
  quotation mark and returns the string and the text after the closing one.
\<close>

definition hexVal :: "16 word \<Rightarrow> nat option" where
  "hexVal c =
     (if 0x30 \<le> c \<and> c \<le> 0x39 then Some (unat c - 48)
      else if 0x61 \<le> c \<and> c \<le> 0x66 then Some (unat c - 87)
      else if 0x41 \<le> c \<and> c \<le> 0x46 then Some (unat c - 55)
      else None)"

definition hex4 :: "16 word \<Rightarrow> 16 word \<Rightarrow> 16 word \<Rightarrow> 16 word \<Rightarrow> 16 word option" where
  "hex4 a b c d =
     (case (hexVal a, hexVal b, hexVal c, hexVal d) of
        (Some x3, Some x2, Some x1, Some x0) \<Rightarrow> Some (of_nat (4096 * x3 + 256 * x2 + 16 * x1 + x0))
      | _ \<Rightarrow> None)"

definition unescape :: "16 word \<Rightarrow> 16 word option" where
  "unescape e =
     (if e = 0x22 then Some 0x22
      else if e = 0x5C then Some 0x5C
      else if e = 0x2F then Some 0x2F
      else if e = 0x62 then Some 0x08
      else if e = 0x66 then Some 0x0C
      else if e = 0x6E then Some 0x0A
      else if e = 0x72 then Some 0x0D
      else if e = 0x74 then Some 0x09
      else None)"

definition consChar :: "16 word \<Rightarrow> (jsstring \<times> jsstring) option \<Rightarrow> (jsstring \<times> jsstring) option" where
  "consChar c res = map_option (\<lambda>(s, rest). (c # s, rest)) res"

fun parseChars :: "jsstring \<Rightarrow> (jsstring \<times> jsstring) option" where
  "parseChars [] = None"
| "parseChars (c # cs) =
     (if c = 0x22 then Some ([], cs)
      else if c = 0x5C then
        (case cs of
           [] \<Rightarrow> None
         | e # r \<Rightarrow>
             if e = 0x75 then
               (case r of
                  h1 # h2 # h3 # h4 # r' \<Rightarrow>
                    (case hex4 h1 h2 h3 h4 of
                       None \<Rightarrow> None
                     | Some u \<Rightarrow> consChar u (parseChars r'))
                | _ \<Rightarrow> None)
             else
               (case unescape e of
                  None \<Rightarrow> None
                | Some u \<Rightarrow> consChar u (parseChars r)))
      else if c < 0x20 then None
      else consChar c (parseChars cs))"

lemma parseChars_shorter: "parseChars s = Some (k, r) \<Longrightarrow> length r < length s"
proof (induction s arbitrary: k r rule: parseChars.induct)
  case 1
  then show ?case by simp
next
  case (2 c cs)
  then show ?case
    by (auto simp: consChar_def split: if_splits list.splits option.splits) fastforce+
qed


lemma length_skipWs [termination_simp]: "length (skipWs s) \<le> length s"
  by (simp add: skipWs_def length_dropWhile_le)

lemma length_skipWs_Cons: "skipWs s = c # cs \<Longrightarrow> length cs < length s"
  using length_skipWs [of s] by simp

text \<open>
  A number: an optional minus, \<^verbatim>\<open>0\<close> or digits not starting with \<^verbatim>\<open>0\<close>, an optional fraction
  and an optional exponent.
\<close>

definition isDigit :: "16 word \<Rightarrow> bool" where
  "isDigit c \<longleftrightarrow> 0x30 \<le> c \<and> c \<le> 0x39"

definition spanDigits :: "jsstring \<Rightarrow> (jsstring \<times> jsstring) option" where
  "spanDigits s =
     (if takeWhile isDigit s = [] then None else Some (takeWhile isDigit s, dropWhile isDigit s))"

definition parseInt :: "jsstring \<Rightarrow> (jsstring \<times> jsstring) option" where
  "parseInt s =
     (case s of
        [] \<Rightarrow> None
      | c # cs \<Rightarrow> if c = 0x30 then Some ([c], cs) else spanDigits s)"

definition parseFrac :: "jsstring \<Rightarrow> (jsstring \<times> jsstring) option" where
  "parseFrac s =
     (case s of
        [] \<Rightarrow> Some ([], s)
      | c # cs \<Rightarrow>
          if c = 0x2E then map_option (\<lambda>(ds, r). (c # ds, r)) (spanDigits cs)
          else Some ([], s))"

definition parseExp :: "jsstring \<Rightarrow> (jsstring \<times> jsstring) option" where
  "parseExp s =
     (case s of
        [] \<Rightarrow> Some ([], s)
      | c # cs \<Rightarrow>
          if c = 0x65 \<or> c = 0x45 then
            (case cs of
               [] \<Rightarrow> None
             | d # ds \<Rightarrow>
                 if d = 0x2B \<or> d = 0x2D
                 then map_option (\<lambda>(xs, r). (c # d # xs, r)) (spanDigits ds)
                 else map_option (\<lambda>(xs, r). (c # xs, r)) (spanDigits cs))
          else Some ([], s))"

definition parseNumber :: "jsstring \<Rightarrow> (jsstring \<times> jsstring) option" where
  "parseNumber s =
     (let (sign, s1) = (case s of [] \<Rightarrow> ([], s) | c # cs \<Rightarrow> if c = 0x2D then ([c], cs) else ([], s))
      in case parseInt s1 of
           None \<Rightarrow> None
         | Some (i, s2) \<Rightarrow>
             (case parseFrac s2 of
                None \<Rightarrow> None
              | Some (f, s3) \<Rightarrow>
                  (case parseExp s3 of
                     None \<Rightarrow> None
                   | Some (e, s4) \<Rightarrow> Some (sign @ i @ f @ e, s4))))"

definition parseLiteral :: "jsstring \<Rightarrow> (json \<times> jsstring) option" where
  "parseLiteral s =
     (if take 4 s = js ''null'' then Some (JNull, drop 4 s)
      else if take 4 s = js ''true'' then Some (JBool True, drop 4 s)
      else if take 5 s = js ''false'' then Some (JBool False, drop 5 s)
      else map_option (\<lambda>(n, r). (JNumber n, r)) (parseNumber s))"

text \<open>
  Values, the elements of an array after \<^verbatim>\<open>[\<close> and the members of an object after \<^verbatim>\<open>{\<close>.
  Each function returns what it has read and the rest of the text. The tests
  \<open>length r < length s\<close> after a value are there for the termination proof only: they always
  hold (\<open>parse_shorter\<close> below).
\<close>

function parseValue :: "jsstring \<Rightarrow> (json \<times> jsstring) option"
  and parseElements :: "jsstring \<Rightarrow> (json list \<times> jsstring) option"
  and parseMembers :: "jsstring \<Rightarrow> ((jsstring \<times> json) list \<times> jsstring) option"
where
  "parseValue s =
     (case skipWs s of
        [] \<Rightarrow> None
      | c # cs \<Rightarrow>
          if c = 0x5B then
            (case skipWs cs of
               [] \<Rightarrow> None
             | d # ds \<Rightarrow>
                 if d = 0x5D then Some (JArray [], ds)
                 else map_option (\<lambda>(vs, r). (JArray vs, r)) (parseElements (skipWs cs)))
          else if c = 0x7B then
            (case skipWs cs of
               [] \<Rightarrow> None
             | d # ds \<Rightarrow>
                 if d = 0x7D then Some (JObject [], ds)
                 else map_option (\<lambda>(ms, r). (JObject ms, r)) (parseMembers (skipWs cs)))
          else if c = 0x22 then map_option (\<lambda>(str, r). (JString str, r)) (parseChars cs)
          else parseLiteral (c # cs))"
| "parseElements s =
     (case parseValue s of
        None \<Rightarrow> None
      | Some (v, r) \<Rightarrow>
          if length r < length s then
            (case skipWs r of
               [] \<Rightarrow> None
             | c # cs \<Rightarrow>
                 if c = 0x2C then map_option (\<lambda>(vs, r'). (v # vs, r')) (parseElements cs)
                 else if c = 0x5D then Some ([v], cs)
                 else None)
          else None)"
| "parseMembers s =
     (case skipWs s of
        [] \<Rightarrow> None
      | q # cs \<Rightarrow>
          if q = 0x22 then
            (case parseChars cs of
               None \<Rightarrow> None
             | Some (k, r) \<Rightarrow>
                 (case skipWs r of
                    [] \<Rightarrow> None
                  | d # ds \<Rightarrow>
                      if d = 0x3A then
                        (case parseValue ds of
                           None \<Rightarrow> None
                         | Some (v, r') \<Rightarrow>
                             if length r' < length ds then
                               (case skipWs r' of
                                  [] \<Rightarrow> None
                                | e # es \<Rightarrow>
                                    if e = 0x2C
                                    then map_option (\<lambda>(ms, r''). ((k, v) # ms, r'')) (parseMembers es)
                                    else if e = 0x7D then Some ([(k, v)], es)
                                    else None)
                             else None)
                      else None))
          else None)"
  by pat_completeness auto

termination
proof (relation "measure (\<lambda>x. case x of
          Inl s \<Rightarrow> 2 * length s
        | Inr (Inl s) \<Rightarrow> 2 * length s + 1
        | Inr (Inr s) \<Rightarrow> 2 * length s + 1)", goal_cases)
  case 1
  then show ?case by simp
next
  case (2 s c cs d ds)
  then show ?case using length_skipWs [of cs] length_skipWs_Cons [of s c cs] by simp
next
  case (3 s c cs d ds)
  then show ?case using length_skipWs [of cs] length_skipWs_Cons [of s c cs] by simp
next
  case (4 s)
  then show ?case by simp
next
  case (5 s x v r c cs)
  then show ?case using length_skipWs_Cons [of r c cs] by simp
next
  case (6 s q cs x k r d ds)
  then show ?case
    using length_skipWs_Cons [of s q cs] parseChars_shorter [of cs k r] length_skipWs_Cons [of r d ds]
    by simp
next
  case (7 s q cs x k r d ds x2 v r' e es)
  then show ?case
    using length_skipWs_Cons [of r' e es] length_skipWs_Cons [of s q cs]
      parseChars_shorter [of cs k r] length_skipWs_Cons [of r d ds]
    by simp
qed

declare parseValue.simps [simp del] parseElements.simps [simp del] parseMembers.simps [simp del]

text \<open>
  \<^verbatim>\<open>JSON.parse(text)\<close>: one value, then white space only; anything else is a \<^verbatim>\<open>SyntaxError\<close>.
\<close>

datatype fault = SyntaxError | NotACollection

definition JSON_parse :: "jsstring \<Rightarrow> fault + json" where
  "JSON_parse text =
     (case parseValue text of
        None \<Rightarrow> Inl SyntaxError
      | Some (v, r) \<Rightarrow> if skipWs r = [] then Inr v else Inl SyntaxError)"

text \<open>
  The parsed value read as a collection of notes: an array of objects whose members are
  strings under the keys \<^verbatim>\<open>id\<close>, \<^verbatim>\<open>title\<close>, \<^verbatim>\<open>content\<close>, \<^verbatim>\<open>created\<close> and possibly
  \<^verbatim>\<open>updated\<close>. Any other value is not a collection of the data model (\<open>None\<close>, and
  \<open>NotACollection\<close> for \<open>loadNotes\<close>). An object with further members is among them: the
  record of a note has no place for what \<^verbatim>\<open>JSON.stringify\<close> would write back.
\<close>

definition getString :: "(jsstring \<times> json) list \<Rightarrow> jsstring \<Rightarrow> jsstring option" where
  "getString ms k = (case map_of (rev ms) k of Some (JString s) \<Rightarrow> Some s | _ \<Rightarrow> None)"

definition noteKeys :: "jsstring list" where
  "noteKeys = [js ''id'', js ''title'', js ''content'', js ''created'', js ''updated'']"

definition asNote :: "json \<Rightarrow> note option" where
  "asNote v =
     (case v of
        JObject ms \<Rightarrow>
          (case (getString ms (js ''id''), getString ms (js ''title''),
                 getString ms (js ''content''), getString ms (js ''created'')) of
             (Some i, Some t, Some c, Some cr) \<Rightarrow>
               if list_all (\<lambda>(k, x). k \<in> set noteKeys \<and> getString ms k \<noteq> None) ms
               then Some \<lparr>id_note = i, title = t, content = c, created = cr,
                          updated = getString ms (js ''updated'')\<rparr>
               else None
           | _ \<Rightarrow> None)
      | _ \<Rightarrow> None)"

fun asNoteList :: "json list \<Rightarrow> note list option" where
  "asNoteList [] = Some []"
| "asNoteList (v # vs) =
     (case asNote v of
        None \<Rightarrow> None
      | Some n \<Rightarrow> map_option ((#) n) (asNoteList vs))"

definition asNotes :: "json \<Rightarrow> note list option" where
  "asNotes v = (case v of JArray vs \<Rightarrow> asNoteList vs | _ \<Rightarrow> None)"

definition loadNotes :: "jsstring \<Rightarrow> fault + note list" where
  "loadNotes saved =
     (case JSON_parse saved of
        Inl e \<Rightarrow> Inl e
      | Inr v \<Rightarrow> (case asNotes v of None \<Rightarrow> Inl NotACollection | Some ns \<Rightarrow> Inr ns))"

text \<open>
  The first render of \<^verbatim>\<open>App\<close>:
  \<^verbatim>\<open>const saved = window.localStorage.getItem("notes");
  return saved ? JSON.parse(saved) : [];\<close>
  A missing key (\<^verbatim>\<open>null\<close>) and the empty string are falsy. An exception of \<^verbatim>\<open>JSON.parse\<close> is
  not caught anywhere, so it ends the render (\<open>Thrown\<close>). Whatever \<^verbatim>\<open>JSON.parse\<close> returns is
  mounted: a collection of notes as the state \<open>mount ns ls\<close>, and any other value as it is
  (\<open>MountedOther\<close>), where the handlers of this development, which work on notes, do not
  follow it.
\<close>

datatype start =
    Thrown fault
  | Mounted app
  | MountedOther json

definition App :: "(jsstring \<rightharpoonup> jsstring) \<Rightarrow> start" where
  "App ls =
     (case ls (js ''notes'') of
        None \<Rightarrow> Mounted (mount [] ls)
      | Some saved \<Rightarrow>
          if saved = [] then Mounted (mount [] ls)
          else (case JSON_parse saved of
                  Inl e \<Rightarrow> Thrown e
                | Inr v \<Rightarrow>
                    (case asNotes v of
                       None \<Rightarrow> MountedOther v
                     | Some ns \<Rightarrow> Mounted (mount ns ls))))"

text \<open>The value that \<^verbatim>\<open>JSON.parse\<close> builds for a note.\<close>

definition noteJson :: "note \<Rightarrow> json" where
  "noteJson n =
     JObject
       ([(js ''id'', JString (id_note n)), (js ''title'', JString (title n)),
         (js ''content'', JString (content n)), (js ''created'', JString (created n))] @
        (case updated n of None \<Rightarrow> [] | Some u \<Rightarrow> [(js ''updated'', JString u)]))"


section \<open>Concrete inputs\<close>

text \<open>
  Two saves in one millisecond. The random texts are what \<^verbatim>\<open>toString(36)\<close> prints for the
  doubles \<open>3698688707473203 / 2^52\<close> and \<open>3698688707473204 / 2^52\<close>, one unit in the last
  place apart; \<open>env3\<close> is a save five seconds later.
\<close>

definition env1 :: env where
  "env1 = \<lparr>dateNow = 1700000000000, random36 = js ''0.tkdcqjb718m'',
           isoNow = js ''2023-11-14T22:13:20.000Z''\<rparr>"

definition env2 :: env where
  "env2 = \<lparr>dateNow = 1700000000000, random36 = js ''0.tkdcqjb719c'',
           isoNow = js ''2023-11-14T22:13:20.000Z''\<rparr>"

definition env3 :: env where
  "env3 = \<lparr>dateNow = 1700000005000, random36 = js ''0.v602dvxw9mh'',
           isoNow = js ''2023-11-14T22:13:25.000Z''\<rparr>"

definition groceries :: "note" where
  "groceries = \<lparr>id_note = js ''n1'', title = js ''Groceries'', content = js ''milk, eggs'',
                 created = js ''2023-11-14T22:13:20.000Z'', updated = None\<rparr>"

definition todo :: "note" where
  "todo = \<lparr>id_note = js ''n2'', title = js ''Todo'', content = js ''call Bob'',
            created = js ''2023-11-13T08:00:00.000Z'',
            updated = Some (js ''2023-11-13T09:30:00.000Z'')\<rparr>"

text \<open>The page in creating-new mode over an empty collection, and with a note selected.\<close>

definition creating :: app where
  "creating = handleCreateNoteClick (mount [] Map.empty)"

definition editing :: app where
  "editing = handleSelectNote (js ''n1'') (mount [groceries, todo] Map.empty)"

text \<open>
  The page after a first note has been saved and the add button pressed again, and after the
  second save.
\<close>

definition secondDraft :: app where
  "secondDraft = handleCreateNoteClick (handleSave env1 (js '' a'') [] creating)"

definition duplicated :: app where
  "duplicated = handleSave env2 (js ''b '') [] secondDraft"

text \<open>A snapshot cut off in the middle of a note.\<close>

definition truncatedSnapshot :: jsstring where
  \<open>truncatedSnapshot = js ''[{"id":"n1","title":"Groceries"''\<close>

section \<open>Properties of the filter\<close>

lemma includes_js_sublist: "includes_js s t \<longleftrightarrow> sublist t s"
  by (induction s) (auto simp: sublist_Cons_right)

lemma includes_js_Nil: "includes_js s []"
  by (cases s) simp_all

text \<open>
  C3: the filter returns exactly the notes, in their order, for which the lower-cased
  \<open>title + " " + content\<close> contains the lower-cased query as a substring; the result is a
  subsequence of the collection, and for the empty query it is the whole collection.
\<close>

theorem filteredNotes_spec:
  assumes "toLowerCase [] = []"
  shows "filteredNotes toLowerCase ns q =
           filter (\<lambda>n. \<exists>pre suf. toLowerCase (title n @ js '' '' @ content n)
                                     = pre @ toLowerCase q @ suf) ns
         \<and> subseq (filteredNotes toLowerCase ns q) ns
         \<and> filteredNotes toLowerCase ns [] = ns"
proof -
  have exact: "filteredNotes toLowerCase ns q =
           filter (\<lambda>n. \<exists>pre suf. toLowerCase (title n @ js '' '' @ content n)
                                     = pre @ toLowerCase q @ suf) ns"
    by (simp add: filteredNotes_def includes_js_sublist sublist_def)
  have sub: "subseq (filteredNotes toLowerCase ns q) ns"
    by (simp add: filteredNotes_def)
  have all: "filteredNotes toLowerCase ns [] = ns"
    using assms by (simp add: filteredNotes_def includes_js_Nil)
  from exact sub all show ?thesis by (intro conjI)
qed

section \<open>Properties of the handlers\<close>

lemma selectedNote_None_iff:
  "selectedNote st = None \<longleftrightarrow> (\<forall>n \<in> set (notes st). Some (id_note n) \<noteq> selectedNoteId st)"
  by (auto simp: selectedNote_def find_None_iff)

lemma notes_setNotes: "notes (setNotes ns st) = ns"
  by (simp add: setNotes_def persistEffect_def perform_def)

lemma selectedNoteId_setNotes: "selectedNoteId (setNotes ns st) = selectedNoteId st"
  by (simp add: setNotes_def persistEffect_def perform_def)

lemma isCreatingNew_setNotes: "isCreatingNew (setNotes ns st) = isCreatingNew st"
  by (simp add: setNotes_def persistEffect_def perform_def)

lemma search_setNotes: "search (setNotes ns st) = search st"
  by (simp add: setNotes_def persistEffect_def perform_def)

lemma localStorage_setNotes:
  "localStorage (setNotes ns st) = (localStorage st)(js ''notes'' \<mapsto> JSON_stringify ns)"
  by (simp add: setNotes_def persistEffect_def perform_def)

lemma effects_setNotes:
  "effects (setNotes ns st) = effects st @ [SetItem (js ''notes'') (JSON_stringify ns)]"
  by (simp add: setNotes_def persistEffect_def perform_def)

lemmas setNotes_fields =
  notes_setNotes selectedNoteId_setNotes isCreatingNew_setNotes search_setNotes
  localStorage_setNotes effects_setNotes

text \<open>
  A save in creating-new mode with a title or a content that is not empty after trimming puts
  one new note in front of the old collection. The new note has the trimmed title and content,
  the identifier that \<open>generateId\<close> returns in this call, the current time as \<open>created\<close> and no
  \<open>updated\<close>; it becomes the selection, and the new collection is what is stored.
\<close>

lemma create_prepends_note:
  assumes "isCreatingNew st" and "trim t \<noteq> [] \<or> trim c \<noteq> []"
  shows "notes (handleSave e t c st) =
           \<lparr>id_note = generateId (dateNow e) (random36 e), title = trim t, content = trim c,
            created = isoNow e, updated = None\<rparr> # notes st
         \<and> selectedNoteId (handleSave e t c st) = Some (generateId (dateNow e) (random36 e))
         \<and> isCreatingNew (handleSave e t c st) = False
         \<and> localStorage (handleSave e t c st) (js ''notes'')
             = Some (JSON_stringify (notes (handleSave e t c st)))"
  using assms by (auto simp: handleSave_def handleSaveNote_def Let_def setNotes_fields)

text \<open>
  C2: when the title and the content are both empty after trimming, a save only shows the
  alert: the collection, the selection, the creating-new flag, the search text and the storage
  are as before, whatever the state of the editor, and nothing is written.
\<close>

theorem save_empty_rejected:
  assumes "trim t = []" and "trim c = []"
  shows "handleSave e t c st = st\<lparr>effects := effects st @ [Alert (js ''Cannot save empty note!'')]\<rparr>
         \<and> notes (handleSave e t c st) = notes st
         \<and> selectedNoteId (handleSave e t c st) = selectedNoteId st
         \<and> isCreatingNew (handleSave e t c st) = isCreatingNew st
         \<and> localStorage (handleSave e t c st) = localStorage st"
  using assms by (simp add: handleSave_def perform_def)

lemma length_filter_remove_one:
  "distinct (map f xs) \<Longrightarrow> x \<in> set (map f xs)
     \<Longrightarrow> Suc (length (filter (\<lambda>n. f n \<noteq> x) xs)) = length xs"
proof (induction xs)
  case Nil
  then show ?case by simp
next
  case (Cons a xs)
  show ?case
  proof (cases "f a = x")
    case True
    from Cons.prems(1) have "f a \<notin> f ` set xs" by simp
    with True have "\<forall>n \<in> set xs. f n \<noteq> x"
      by blast
    then have "filter (\<lambda>n. f n \<noteq> x) xs = xs"
      by (simp add: filter_id_conv)
    with True show ?thesis by simp
  next
    case False
    with Cons show ?thesis by auto
  qed
qed

lemma filter_one:
  assumes "distinct (map f xs)" and "x \<in> set (map f xs)"
  shows "length (filter (\<lambda>n. f n = x) xs) = 1"
proof -
  have "length (filter (\<lambda>n. f n = x) xs) + length (filter (\<lambda>n. \<not> f n = x) xs) = length xs"
    by (rule sum_length_filter_compl)
  with length_filter_remove_one [OF assms] show ?thesis by simp
qed

text \<open>
  A save while an existing note is selected keeps the length of the collection; at every
  position a note with the selected identifier gets the trimmed title and content and the
  current time as \<open>updated\<close>, with its \<open>id\<close> and \<open>created\<close> as before, and a note with another
  identifier is unchanged. Only when the identifiers of the collection are distinct is that one
  note.
\<close>

lemma update_in_place:
  assumes "\<not> isCreatingNew st" and "selectedNoteId st = Some noteId"
    and "noteId \<in> set (map id_note (notes st))"
    and "trim t \<noteq> [] \<or> trim c \<noteq> []"
  shows "length (notes (handleSave e t c st)) = length (notes st)
         \<and> (\<forall>k < length (notes st).
              notes (handleSave e t c st) ! k =
                (if id_note (notes st ! k) = noteId
                 then (notes st ! k)\<lparr>title := trim t, content := trim c,
                                      updated := Some (isoNow e)\<rparr>
                 else notes st ! k))
         \<and> map id_note (notes (handleSave e t c st)) = map id_note (notes st)
         \<and> map created (notes (handleSave e t c st)) = map created (notes st)
         \<and> selectedNoteId (handleSave e t c st) = Some noteId
         \<and> isCreatingNew (handleSave e t c st) = False
         \<and> (distinct (map id_note (notes st))
              \<longrightarrow> length (filter (\<lambda>n. id_note n = noteId) (notes st)) = 1)"
proof -
  from assms(2,3) have sel: "selectedNote st \<noteq> None"
    by (auto simp: selectedNote_None_iff)
  let ?f = "\<lambda>n. if Some (id_note n) = selectedNoteId st
                 then n\<lparr>title := trim t, content := trim c, updated := Some (isoNow e)\<rparr>
                 else n"
  have eq: "handleSave e t c st = setNotes (map ?f (notes st)) st"
    using assms(1,4) sel by (auto simp: handleSave_def handleSaveNote_def cong: if_cong)
  have ids: "map id_note (map ?f (notes st)) = map id_note (notes st)"
    by (induction "notes st") auto
  have crs: "map created (map ?f (notes st)) = map created (notes st)"
    by (induction "notes st") auto
  have one: "length (filter (\<lambda>n. id_note n = noteId) (notes st)) = 1"
    if "distinct (map id_note (notes st))"
    using that assms(3) by (rule filter_one)
  show ?thesis
    unfolding eq setNotes_fields using assms(1,2) ids crs one by auto
qed

text \<open>
  C10: when the creating-new flag is off and no note of the collection has the selected
  identifier, \<open>handleSaveNote\<close> returns the state as it is: no note, no selection, no stored
  value changes and no effect (alert or write) happens; so does the editor's save when the
  fields are not both empty.
\<close>

theorem save_without_target_noop:
  assumes "\<not> isCreatingNew st"
    and "\<forall>n \<in> set (notes st). Some (id_note n) \<noteq> selectedNoteId st"
  shows "handleSaveNote e edited st = st
         \<and> (trim t \<noteq> [] \<or> trim c \<noteq> [] \<longrightarrow> handleSave e t c st = st)"
  using assms by (auto simp: handleSave_def handleSaveNote_def selectedNote_None_iff)

text \<open>
  The delete handler asks for confirmation first. Declined, it changes nothing else.
  Confirmed, the collection becomes the notes with another identifier, in their order, and is
  written to the storage; the selection is cleared if it was that identifier, and the
  creating-new flag is cleared.
\<close>

lemma delete_note_effect:
  "handleDeleteNote False noteId st =
     st\<lparr>effects := effects st @ [Confirm (js ''Delete this note? This action cannot be undone.'')]\<rparr>
   \<and> notes (handleDeleteNote True noteId st) = filter (\<lambda>n. id_note n \<noteq> noteId) (notes st)
   \<and> subseq (notes (handleDeleteNote True noteId st)) (notes st)
   \<and> ((notes (handleDeleteNote True noteId st) = notes st)
        = (noteId \<notin> set (map id_note (notes st))))
   \<and> (distinct (map id_note (notes st)) \<and> noteId \<in> set (map id_note (notes st))
        \<longrightarrow> Suc (length (notes (handleDeleteNote True noteId st))) = length (notes st))
   \<and> selectedNoteId (handleDeleteNote True noteId st)
        = (if selectedNoteId st = Some noteId then None else selectedNoteId st)
   \<and> isCreatingNew (handleDeleteNote True noteId st) = False
   \<and> search (handleDeleteNote True noteId st) = search st
   \<and> take (Suc (length (effects st))) (effects (handleDeleteNote answer noteId st))
        = effects st @ [Confirm (js ''Delete this note? This action cannot be undone.'')]"
proof -
  let ?keep = "\<lambda>n. id_note n \<noteq> noteId"
  have declined: "handleDeleteNote False noteId st =
     st\<lparr>effects := effects st @ [Confirm (js ''Delete this note? This action cannot be undone.'')]\<rparr>"
    by (simp add: handleDeleteNote_def perform_def)
  have coll: "notes (handleDeleteNote True noteId st) = filter ?keep (notes st)"
    by (simp add: handleDeleteNote_def Let_def setNotes_fields perform_def)
  have same: "(filter ?keep (notes st) = notes st) = (noteId \<notin> set (map id_note (notes st)))"
    by (auto simp: filter_id_conv)
  have one: "Suc (length (filter ?keep (notes st))) = length (notes st)"
    if "distinct (map id_note (notes st))" "noteId \<in> set (map id_note (notes st))"
    using that by (rule length_filter_remove_one)
  have sel: "selectedNoteId (handleDeleteNote True noteId st)
        = (if selectedNoteId st = Some noteId then None else selectedNoteId st)"
    by (simp add: handleDeleteNote_def Let_def setNotes_fields perform_def)
  have flag: "isCreatingNew (handleDeleteNote True noteId st) = False"
    by (simp add: handleDeleteNote_def Let_def)
  have srch: "search (handleDeleteNote True noteId st) = search st"
    by (simp add: handleDeleteNote_def Let_def setNotes_fields perform_def)
  have asked: "take (Suc (length (effects st))) (effects (handleDeleteNote answer noteId st))
        = effects st @ [Confirm (js ''Delete this note? This action cannot be undone.'')]"
    by (simp add: handleDeleteNote_def Let_def setNotes_fields perform_def)
  show ?thesis
    unfolding coll using declined same one sel flag srch asked
    by (simp add: coll)
qed

section \<open>The selection invariant\<close>


lemma selectionOk_mount: "selectionOk (mount ns ls)"
  by (simp add: selectionOk_def mount_def persistEffect_def perform_def)

lemma listed_in_notes: "listed lc st noteId \<Longrightarrow> noteId \<in> set (map id_note (notes st))"
  by (auto simp: listed_def filteredNotes_def)

lemma selectionOk_setNotes:
  "selectionOk st \<Longrightarrow> map id_note ns = map id_note (notes st) \<Longrightarrow> selectionOk (setNotes ns st)"
  unfolding selectionOk_def setNotes_fields by simp

lemma selectionOk_handleSaveNote: "selectionOk st \<Longrightarrow> selectionOk (handleSaveNote e edited st)"
proof -
  assume ok: "selectionOk st"
  let ?f = "\<lambda>n. if Some (id_note n) = selectedNoteId st
                 then n\<lparr>title := fst edited, content := snd edited, updated := Some (isoNow e)\<rparr>
                 else n"
  have ids: "map id_note (map ?f (notes st)) = map id_note (notes st)"
    by (induction "notes st") auto
  show ?thesis
  proof (cases "isCreatingNew st")
    case True
    then show ?thesis
      by (simp add: selectionOk_def handleSaveNote_def Let_def setNotes_fields)
  next
    case False
    show ?thesis
    proof (cases "selectedNote st = None")
      case True
      with False ok show ?thesis by (simp add: handleSaveNote_def)
    next
      case sel: False
      from ok ids have "selectionOk (setNotes (map ?f (notes st)) st)"
        by (rule selectionOk_setNotes)
      with False sel show ?thesis by (simp add: handleSaveNote_def)
    qed
  qed
qed

lemma selectionOk_handle:
  assumes "selectionOk st" and "offered lc st ev"
  shows "selectionOk (handle ev st)"
proof (cases ev)
  case (SearchChange v)
  with assms show ?thesis by (simp add: selectionOk_def handleSearchChange_def)
next
  case CreateNoteClick
  then show ?thesis by (simp add: selectionOk_def handleCreateNoteClick_def)
next
  case (SelectNote noteId)
  with assms(2) have "noteId \<in> set (map id_note (notes st))"
    by (auto dest: listed_in_notes)
  with SelectNote show ?thesis by (simp add: selectionOk_def handleSelectNote_def)
next
  case (DeleteNote noteId answer)
  with assms(1) show ?thesis
    by (cases "selectedNoteId st")
       (auto simp: selectionOk_def handleDeleteNote_def Let_def setNotes_fields perform_def)
next
  case (Save e t c)
  with assms(1) show ?thesis
    by (auto simp: handleSave_def selectionOk_handleSaveNote)
       (simp add: selectionOk_def perform_def)
next
  case CancelEdit
  then show ?thesis by (simp add: selectionOk_def handleCancelEdit_def)
qed

lemma selectionOk_run:
  "selectionOk st \<Longrightarrow> run lc evs st = Some st' \<Longrightarrow> selectionOk st'"
proof (induction evs arbitrary: st)
  case Nil
  then show ?case by simp
next
  case (Cons ev evs)
  from Cons.prems(2) have off: "offered lc st ev" and rest: "run lc evs (handle ev st) = Some st'"
    by (auto split: if_splits)
  from Cons.prems(1) off have "selectionOk (handle ev st)" by (rule selectionOk_handle)
  then show ?case using rest by (rule Cons.IH)
qed

text \<open>
  C9: in every state reached from the mounted page by events that the page offers, the
  creating-new flag and a selected identifier are not set together, and a selected identifier
  is the identifier of a note of the collection.
\<close>

theorem selection_invariant:
  assumes "run lc evs (mount ns ls) = Some st"
  shows "\<not> (isCreatingNew st \<and> selectedNoteId st \<noteq> None)
         \<and> set_option (selectedNoteId st) \<subseteq> set (map id_note (notes st))"
  using selectionOk_run [OF selectionOk_mount assms] by (simp add: selectionOk_def)


section \<open>The identifier generator\<close>



lemma unat_digit: "d < 10 \<Longrightarrow> unat (digit d) = 48 + d"
  unfolding digit_def unat_of_nat by simp

lemma digit_inj:
  assumes "a < 10" "b < 10" "digit a = digit b"
  shows "a = b"
proof -
  from assms(3) have "unat (digit a) = unat (digit b)" by (rule arg_cong)
  with assms(1,2) show ?thesis by (simp only: unat_digit add_left_cancel)
qed

lemma digit_not_minus: 
  assumes "d < 10" shows "digit d \<noteq> 0x2D"
proof
  assume "digit d = 0x2D"
  then have "unat (digit d) = unat (0x2D :: 16 word)" by (rule arg_cong)
  with assms show False by (simp only: unat_digit) simp
qed
lemma digits_not_Nil: "digits n \<noteq> []"
  by (subst digits.simps) simp

lemma digits_single: "digits n = [c] \<Longrightarrow> n < 10"
  by (subst (asm) digits.simps) (simp add: digits_not_Nil split: if_splits)

lemma digits_inj: "digits n = digits m \<Longrightarrow> n = m"
proof (induction n arbitrary: m rule: digits.induct)
  case (1 n)
  show ?case
  proof (cases "n < 10")
    case True
    then have n: "digits n = [digit n]" by (subst digits.simps) simp
    with "1.prems" have "m < 10" by (auto dest: digits_single [OF sym])
    then have "digits m = [digit m]" by (subst digits.simps) simp
    with n "1.prems" True \<open>m < 10\<close> show ?thesis by (auto dest: digit_inj)
  next
    case False
    then have n: "digits n = digits (n div 10) @ [digit (n mod 10)]"
      by (subst digits.simps) simp
    have "\<not> m < 10"
    proof
      assume "m < 10"
      then have "digits m = [digit m]" by (subst digits.simps) simp
      with "1.prems" n show False by (simp add: digits_not_Nil)
    qed
    then have m: "digits m = digits (m div 10) @ [digit (m mod 10)]"
      by (subst digits.simps) simp
    from "1.prems" n m have "digits (n div 10) = digits (m div 10)"
      and d: "digit (n mod 10) = digit (m mod 10)" by simp_all
    with False "1.IH" have "n div 10 = m div 10" by simp
    moreover from d have "n mod 10 = m mod 10" by (rule digit_inj [rotated 2]) simp_all
    ultimately show ?thesis by (metis div_mult_mod_eq)
  qed
qed

lemma hd_digits_not_minus: "hd (digits n) \<noteq> 0x2D"
proof (induction n rule: digits.induct)
  case (1 n)
  show ?case
  proof (cases "n < 10")
    case True
    then show ?thesis by (subst digits.simps) (simp add: digit_not_minus)
  next
    case False
    with 1 show ?thesis by (subst digits.simps) (simp add: digits_not_Nil)
  qed
qed

lemma toString10_inj: "toString10 i = toString10 j \<Longrightarrow> i = j"
proof -
  assume eq: "toString10 i = toString10 j"
  have neg: False if "toString10 a = toString10 b" "a < 0" "\<not> b < 0" for a b
  proof -
    from that have "0x2D # digits (nat (- a)) = digits (nat b)" by (simp add: toString10_def)
    then have "hd (digits (nat b)) = 0x2D" by (metis list.sel(1))
    with hd_digits_not_minus show False by blast
  qed
  show ?thesis
  proof (cases "i < 0")
    case True
    show ?thesis
    proof (cases "j < 0")
      case j: True
      with True eq have "nat (- i) = nat (- j)" by (auto simp: toString10_def dest: digits_inj)
      with True j show ?thesis by simp
    next
      case False
      with neg [OF eq True] show ?thesis by simp
    qed
  next
    case False
    show ?thesis
    proof (cases "j < 0")
      case True
      with neg [OF eq [symmetric] True] False show ?thesis by simp
    next
      case j: False
      with False eq have "nat i = nat j" by (auto simp: toString10_def dest: digits_inj)
      with False j show ?thesis by simp
    qed
  qed
qed

text \<open>
  For two calls whose clock readings are written with the same number of characters, the
  identifiers are equal exactly when the clock readings are equal and the eight characters
  taken from the random text are equal.
\<close>

lemma generateId_collision:
  assumes "length (toString10 t1) = length (toString10 t2)"
  shows "generateId t1 r1 = generateId t2 r2 \<longleftrightarrow> t1 = t2 \<and> substr r1 2 8 = substr r2 2 8"
  using assms by (auto simp: generateId_def dest: toString10_inj)


section \<open>The parser consumes its input\<close>

lemma spanDigits_shorter: "spanDigits s = Some (d, r) \<Longrightarrow> length r < length s"
proof -
  assume a: "spanDigits s = Some (d, r)"
  then have "takeWhile isDigit s \<noteq> []" and r: "r = dropWhile isDigit s"
    by (auto simp: spanDigits_def split: if_splits)
  then have "0 < length (takeWhile isDigit s)" by simp
  moreover have "length s = length (takeWhile isDigit s) + length (dropWhile isDigit s)"
    by (metis length_append takeWhile_dropWhile_id)
  ultimately show ?thesis using r by simp
qed

lemma parseInt_shorter: "parseInt s = Some (i, r) \<Longrightarrow> length r < length s"
  by (auto simp: parseInt_def split: list.splits if_splits dest: spanDigits_shorter)

lemma parseFrac_shorter: "parseFrac s = Some (f, r) \<Longrightarrow> length r \<le> length s"
  by (auto simp: parseFrac_def split: list.splits if_splits dest!: spanDigits_shorter)

lemma parseExp_shorter: "parseExp s = Some (e, r) \<Longrightarrow> length r \<le> length s"
  by (auto simp: parseExp_def split: list.splits if_splits dest!: spanDigits_shorter)

lemma parseNumber_shorter:
  assumes "parseNumber s = Some (n, r)"
  shows "length r < length s"
proof -
  obtain sign s1 where s1: "(case s of [] \<Rightarrow> ([], s) | c # cs \<Rightarrow> if c = 0x2D then ([c], cs) else ([], s)) = (sign, s1)"
    by (cases "(case s of [] \<Rightarrow> ([], s) | c # cs \<Rightarrow> if c = 0x2D then ([c], cs) else ([], s))") 
  then have l1: "length s1 \<le> length s" by (auto split: list.splits if_splits)
  from assms s1 obtain i s2 f s3 e where
    "parseInt s1 = Some (i, s2)" "parseFrac s2 = Some (f, s3)" "parseExp s3 = Some (e, r)"
    by (auto simp: parseNumber_def split: option.splits)
  then have "length s2 < length s1" "length s3 \<le> length s2" "length r \<le> length s3"
    by (auto dest: parseInt_shorter parseFrac_shorter parseExp_shorter)
  with l1 show ?thesis by simp
qed

lemma take_eq_length: "take n s = t \<Longrightarrow> length t = n \<Longrightarrow> n \<le> length s"
  by (metis length_take min.cobounded1 min.commute)

lemma parseLiteral_shorter:
  assumes "parseLiteral s = Some (v, r)"
  shows "length r < length s"
proof -
  have four: "length (drop 4 s) < length s" if "take 4 s = t" "length t = 4" for t
    using take_eq_length [OF that] by simp
  have five: "length (drop 5 s) < length s" if "take 5 s = t" "length t = 5" for t
    using take_eq_length [OF that] by simp
  have l: "length (js ''null'') = 4" "length (js ''true'') = 4" "length (js ''false'') = 5"
    by (simp_all add: js_def)
  from assms show ?thesis
    unfolding parseLiteral_def
    by (auto split: if_splits dest: parseNumber_shorter four [OF _ l(1)] four [OF _ l(2)]
          five [OF _ l(3)])
qed

lemma parse_shorter:
  "(\<forall>v r. parseValue s = Some (v, r) \<longrightarrow> length r < length s)"
  "(\<forall>vs r. parseElements s1 = Some (vs, r) \<longrightarrow> length r < length s1)"
  "(\<forall>ms r. parseMembers s2 = Some (ms, r) \<longrightarrow> length r < length s2)"
proof (induction s and s1 and s2 rule: parseValue_parseElements_parseMembers.induct)
  case (1 s)
  show ?case
  proof (intro allI impI)
    fix v r
    assume a: "parseValue s = Some (v, r)"
    then obtain c cs where sk: "skipWs s = c # cs"
      by (subst (asm) parseValue.simps) (auto split: list.splits)
    then have lcs: "length cs < length s" by (rule length_skipWs_Cons)
    have lsk: "length (skipWs cs) \<le> length cs" by (rule length_skipWs)
    show "length r < length s"
    proof (cases "c = 0x5B")
      case True
      with a sk obtain d ds where d: "skipWs cs = d # ds"
        by (subst (asm) parseValue.simps) (auto split: list.splits)
      show ?thesis
      proof (cases "d = 0x5D")
        case d5: True
        with a sk True d have "r = ds" by (subst (asm) parseValue.simps) simp
        with d lcs length_skipWs_Cons [OF d] show ?thesis by simp
      next
        case False
        with a sk True d obtain vs where "parseElements (skipWs cs) = Some (vs, r)"
          by (subst (asm) parseValue.simps) auto
        with "1.IH"(1) [OF sk True d False] have "length r < length (skipWs cs)" by blast
        with lsk lcs show ?thesis by simp
      qed
    next
      case nb: False
      show ?thesis
      proof (cases "c = 0x7B")
        case True
        with a sk nb obtain d ds where d: "skipWs cs = d # ds"
          by (subst (asm) parseValue.simps) (auto split: list.splits)
        show ?thesis
        proof (cases "d = 0x7D")
          case d5: True
          with a sk True d have "r = ds" by (subst (asm) parseValue.simps) simp
          with d lcs length_skipWs_Cons [OF d] show ?thesis by simp
        next
          case False
          with a sk True d obtain ms where "parseMembers (skipWs cs) = Some (ms, r)"
            by (subst (asm) parseValue.simps) auto
          with "1.IH"(2) [OF sk nb True d False] have "length r < length (skipWs cs)" by blast
          with lsk lcs show ?thesis by simp
        qed
      next
        case no: False
        show ?thesis
        proof (cases "c = 0x22")
          case True
          with a sk nb no obtain str where "parseChars cs = Some (str, r)"
            by (subst (asm) parseValue.simps) auto
          then have "length r < length cs" by (rule parseChars_shorter)
          with lcs show ?thesis by simp
        next
          case False
          with a sk nb no have "parseLiteral (c # cs) = Some (v, r)"
            by (subst (asm) parseValue.simps) simp
          then have "length r < length (c # cs)" by (rule parseLiteral_shorter)
          with lcs show ?thesis by simp
        qed
      qed
    qed
  qed
next
  case (2 s)
  show ?case
  proof (intro allI impI)
    fix vs r
    assume a: "parseElements s = Some (vs, r)"
    then obtain v r1 where v: "parseValue s = Some (v, r1)"
      by (subst (asm) parseElements.simps) (auto split: option.splits)
    with a have g: "length r1 < length s"
      by (subst (asm) parseElements.simps) (auto split: if_splits)
    with a v obtain c cs where sk: "skipWs r1 = c # cs"
      by (subst (asm) parseElements.simps) (auto split: list.splits)
    then have lcs: "length cs < length r1" by (rule length_skipWs_Cons)
    show "length r < length s"
    proof (cases "c = 0x2C")
      case True
      with a v g sk obtain ws where "parseElements cs = Some (ws, r)"
        by (subst (asm) parseElements.simps) auto
      with "2.IH"(2) [OF v refl g sk True] have "length r < length cs" by blast
      with lcs g show ?thesis by simp
    next
      case False
      with a v g sk have "r = cs"
        by (subst (asm) parseElements.simps) (auto split: if_splits)
      with lcs g show ?thesis by simp
    qed
  qed
next
  case (3 s)
  show ?case
  proof (intro allI impI)
    fix ms r
    assume a: "parseMembers s = Some (ms, r)"
    then obtain q cs where sk: "skipWs s = q # cs" and q: "q = 0x22"
      by (subst (asm) parseMembers.simps) (auto split: list.splits if_splits)
    with a obtain k r1 where k: "parseChars cs = Some (k, r1)"
      by (subst (asm) parseMembers.simps) (auto split: option.splits)
    with a sk q obtain d ds where d: "skipWs r1 = d # ds" and dc: "d = 0x3A"
      by (subst (asm) parseMembers.simps) (auto split: list.splits if_splits)
    with a sk q k obtain v r2 where v: "parseValue ds = Some (v, r2)"
      by (subst (asm) parseMembers.simps) (auto split: option.splits)
    with a sk q k d dc have g: "length r2 < length ds"
      by (subst (asm) parseMembers.simps) (auto split: if_splits)
    with a sk q k d dc v obtain e es where e: "skipWs r2 = e # es"
      by (subst (asm) parseMembers.simps) (auto split: list.splits)
    have chain: "length es < length s"
      using length_skipWs_Cons [OF e] g length_skipWs_Cons [OF d] parseChars_shorter [OF k]
        length_skipWs_Cons [OF sk] by simp
    show "length r < length s"
    proof (cases "e = 0x2C")
      case True
      with a sk q k d dc v g e obtain ms' where "parseMembers es = Some (ms', r)"
        by (subst (asm) parseMembers.simps) auto
      with "3.IH"(2) [OF sk q k refl d dc v refl g e True] have "length r < length es" by blast
      with chain show ?thesis by simp
    next
      case False
      with a sk q k d dc v g e have "r = es"
        by (subst (asm) parseMembers.simps) (auto split: if_splits)
      with chain show ?thesis by simp
    qed
  qed
qed

text \<open>So the tests on the lengths never fail, and the parser is the plain descent.\<close>

lemma parseElements_unguarded:
  "parseElements s =
     (case parseValue s of
        None \<Rightarrow> None
      | Some (v, r) \<Rightarrow>
          (case skipWs r of
             [] \<Rightarrow> None
           | c # cs \<Rightarrow>
               if c = 0x2C then map_option (\<lambda>(vs, r'). (v # vs, r')) (parseElements cs)
               else if c = 0x5D then Some ([v], cs)
               else None))"
  using parse_shorter(1) [of s]
  by (subst parseElements.simps) (auto split: option.splits)

lemma parseMembers_unguarded:
  "parseMembers s =
     (case skipWs s of
        [] \<Rightarrow> None
      | q # cs \<Rightarrow>
          if q = 0x22 then
            (case parseChars cs of
               None \<Rightarrow> None
             | Some (k, r) \<Rightarrow>
                 (case skipWs r of
                    [] \<Rightarrow> None
                  | d # ds \<Rightarrow>
                      if d = 0x3A then
                        (case parseValue ds of
                           None \<Rightarrow> None
                         | Some (v, r') \<Rightarrow>
                             (case skipWs r' of
                                [] \<Rightarrow> None
                              | e # es \<Rightarrow>
                                  if e = 0x2C
                                  then map_option (\<lambda>(ms, r''). ((k, v) # ms, r'')) (parseMembers es)
                                  else if e = 0x7D then Some ([(k, v)], es)
                                  else None))
                      else None))
          else None)"
proof -
  have g: "length r' < length ds" if "parseValue ds = Some (v, r')" for ds v r'
    using parse_shorter(1) [of ds] that by blast
  show ?thesis
    by (subst parseMembers.simps) (auto split: option.splits list.splits dest: g)
qed

section \<open>The snapshot round trip\<close>

lemma unat_of_nat16: "n < 65536 \<Longrightarrow> unat (of_nat n :: 16 word) = n"
  by (simp add: unat_of_nat)

lemma unat_hexDigit: "d < 16 \<Longrightarrow> unat (hexDigit d) = (if d < 10 then 48 + d else 87 + d)"
  unfolding hexDigit_def by (rule unat_of_nat16) simp

lemma hexVal_hexDigit: "d < 16 \<Longrightarrow> hexVal (hexDigit d) = Some d"
  unfolding hexVal_def word_le_nat_alt by (simp add: unat_hexDigit)

lemma hex_digits_sum:
  "4096 * (n div 4096) + 256 * (n div 256 mod 16) + 16 * (n div 16 mod 16) + n mod 16 = (n::nat)"
proof -
  have a: "n = 16 * (n div 16) + n mod 16" by simp
  have "n div 16 div 16 = n div 256" by (simp add: div_mult2_eq)
  with div_mult_mod_eq [of "n div 16" 16]
  have b: "n div 16 = 16 * (n div 256) + n div 16 mod 16" by simp
  have "n div 256 div 16 = n div 4096" by (simp add: div_mult2_eq)
  with div_mult_mod_eq [of "n div 256" 16]
  have c: "n div 256 = 16 * (n div 4096) + n div 256 mod 16" by simp
  from a b c show ?thesis by linarith
qed

lemma hex4_digits:
  assumes "n < 65536"
  shows "hex4 (hexDigit (n div 4096)) (hexDigit (n div 256 mod 16)) (hexDigit (n div 16 mod 16))
           (hexDigit (n mod 16)) = Some (of_nat n)"
proof -
  from assms have "n div 4096 < 16" by simp
  then show ?thesis
    by (simp add: hex4_def hexVal_hexDigit hex_digits_sum)
qed

lemma unat_less_65536: "unat (c :: 16 word) < 65536"
  using unsigned_less [of c, where 'a = nat] by simp

lemma parseChars_unicodeEscape:
  "parseChars (unicodeEscape c @ rest) = consChar c (parseChars rest)"
  by (simp add: unicodeEscape_def hex4_digits [OF unat_less_65536])

lemma parseChars_quoteUnit: "parseChars (quoteUnit c @ rest) = consChar c (parseChars rest)"
proof -
  have raw: "parseChars ([c] @ rest) = consChar c (parseChars rest)"
    if "c \<noteq> 0x22" "c \<noteq> 0x5C" "\<not> c < 0x20"
    using that by simp
  show ?thesis
    unfolding quoteUnit_def
    by (simp only: parseChars_unicodeEscape raw split: if_split)
       (simp add: unescape_def)
qed


lemma surrogate_raw:
  fixes c :: "16 word"
  assumes "0xD800 \<le> c"
  shows "\<not> c < 0x20" and "c \<noteq> 0x22" and "c \<noteq> 0x5C"
proof -
  from assms have "55296 \<le> unat c" by (simp add: word_le_nat_alt)
  then show "\<not> c < 0x20" and "c \<noteq> 0x22" and "c \<noteq> 0x5C"
    by (auto simp: word_less_nat_alt)
qed

lemma parseChars_pair:
  assumes "isLeadingSurrogate c" and "isTrailingSurrogate d"
  shows "parseChars (c # d # rest) = consChar c (consChar d (parseChars rest))"
proof -
  from assms(1) have c: "0xD800 \<le> c" by (simp add: isLeadingSurrogate_def)
  from assms(2) have "0xDC00 \<le> d" by (simp add: isTrailingSurrogate_def)
  then have d: "0xD800 \<le> d" by (simp add: word_le_nat_alt)
  show ?thesis
    by (simp add: surrogate_raw [OF c] surrogate_raw [OF d])
qed

lemma parseChars_quoteChars: "parseChars (quoteChars s @ 0x22 # rest) = Some (s, rest)"
proof (induction s rule: quoteChars.induct)
  case 1
  show ?case by simp
next
  case (2 c)
  have "parseChars (quoteUnit c @ 0x22 # rest) = consChar c (parseChars (0x22 # rest))"
    by (rule parseChars_quoteUnit)
  then show ?case by (simp add: consChar_def)
next
  case (3 c d cs)
  show ?case
  proof (cases "isLeadingSurrogate c \<and> isTrailingSurrogate d")
    case True
    then have q: "quoteChars (c # d # cs) = c # d # quoteChars cs" by simp
    from True have "parseChars (c # d # quoteChars cs @ 0x22 # rest)
                = consChar c (consChar d (parseChars (quoteChars cs @ 0x22 # rest)))"
      by (simp only: parseChars_pair)
    also have "\<dots> = Some (c # d # cs, rest)"
      using "3.IH"(1) [OF True] by (simp add: consChar_def)
    finally show ?thesis by (simp only: q append_Cons)
  next
    case False
    then have q: "quoteChars (c # d # cs) = quoteUnit c @ quoteChars (d # cs)"
      by (simp only: quoteChars.simps if_False)
    have "parseChars (quoteUnit c @ quoteChars (d # cs) @ 0x22 # rest)
                = consChar c (parseChars (quoteChars (d # cs) @ 0x22 # rest))"
      by (rule parseChars_quoteUnit)
    also have "\<dots> = Some (c # d # cs, rest)"
      using "3.IH"(2) [OF False] by (simp add: consChar_def)
    finally show ?thesis by (simp only: q append_assoc)
  qed
qed

lemma skipWs_Cons: "\<not> isJsonWs c \<Longrightarrow> skipWs (c # cs) = c # cs"
  by (simp add: skipWs_def)

lemma notWs [simp]:
  "\<not> isJsonWs 0x22" "\<not> isJsonWs 0x2C" "\<not> isJsonWs 0x3A" "\<not> isJsonWs 0x5B"
  "\<not> isJsonWs 0x5D" "\<not> isJsonWs 0x7B" "\<not> isJsonWs 0x7D"
  by (simp_all add: isJsonWs_def)

lemma parseValue_string:
  "parseValue (quoteJSONString s @ rest) = Some (JString s, rest)"
  by (subst parseValue.simps) (simp add: quoteJSONString_def skipWs_Cons parseChars_quoteChars)

lemma quoteJSONString_not_Nil [simp]: "quoteJSONString s \<noteq> []"
  by (simp add: quoteJSONString_def)

lemma parseMembers_more:
  "parseMembers (quoteJSONString k @ 0x3A # quoteJSONString v @ 0x2C # rest)
     = map_option (\<lambda>(ms, r). ((k, JString v) # ms, r)) (parseMembers rest)"
  by (subst parseMembers.simps)
     (simp add: quoteJSONString_def [of k] skipWs_Cons parseChars_quoteChars parseValue_string)

lemma parseMembers_last:
  "parseMembers (quoteJSONString k @ 0x3A # quoteJSONString v @ 0x7D # rest)
     = Some ([(k, JString v)], rest)"
  by (subst parseMembers.simps)
     (simp add: quoteJSONString_def [of k] skipWs_Cons parseChars_quoteChars parseValue_string)

lemma quote_keys:
  \<open>quoteJSONString (js ''id'') = js ''"id"''\<close>
  \<open>quoteJSONString (js ''title'') = js ''"title"''\<close>
  \<open>quoteJSONString (js ''content'') = js ''"content"''\<close>
  \<open>quoteJSONString (js ''created'') = js ''"created"''\<close>
  \<open>quoteJSONString (js ''updated'') = js ''"updated"''\<close>
  by (simp_all add: quoteJSONString_def quoteUnit_def js_def isLeadingSurrogate_def
        isTrailingSurrogate_def)

lemma stringifyNote_members:
  "stringifyNote n =
     0x7B # quoteJSONString (js ''id'') @ 0x3A # quoteJSONString (id_note n) @
     0x2C # quoteJSONString (js ''title'') @ 0x3A # quoteJSONString (title n) @
     0x2C # quoteJSONString (js ''content'') @ 0x3A # quoteJSONString (content n) @
     0x2C # quoteJSONString (js ''created'') @ 0x3A # quoteJSONString (created n) @
     (case updated n of
        None \<Rightarrow> [0x7D]
      | Some u \<Rightarrow> 0x2C # quoteJSONString (js ''updated'') @ 0x3A # quoteJSONString u @ [0x7D])"
  unfolding stringifyNote_def quote_keys by (simp add: js_def split: option.split)

lemma skipWs_quoteJSONString: "skipWs (quoteJSONString k @ xs) = quoteJSONString k @ xs"
  by (simp add: quoteJSONString_def skipWs_Cons)

lemma parseValue_object:
  "parseValue (0x7B # quoteJSONString k @ xs)
     = map_option (\<lambda>(ms, r). (JObject ms, r)) (parseMembers (quoteJSONString k @ xs))"
  by (subst parseValue.simps) (simp add: skipWs_Cons quoteJSONString_def)

lemma parseValue_note: "parseValue (stringifyNote n @ rest) = Some (noteJson n, rest)"
  unfolding stringifyNote_members
  by (cases "updated n")
     (simp_all add: parseValue_object parseMembers_more parseMembers_last noteJson_def)

lemma stringifyNote_not_Nil [simp]: "stringifyNote n \<noteq> []"
  by (simp add: stringifyNote_members)

lemma parseElements_more:
  "parseElements (stringifyNote n @ 0x2C # rest)
     = map_option (\<lambda>(vs, r). (noteJson n # vs, r)) (parseElements rest)"
  by (subst parseElements.simps) (simp add: parseValue_note skipWs_Cons)

lemma parseElements_last:
  "parseElements (stringifyNote n @ 0x5D # rest) = Some ([noteJson n], rest)"
  by (subst parseElements.simps) (simp add: parseValue_note skipWs_Cons)

lemma parseElements_notes:
  "ns \<noteq> [] \<Longrightarrow> parseElements (stringifyElements ns @ 0x5D # rest) = Some (map noteJson ns, rest)"
proof (induction ns rule: stringifyElements.induct)
  case 1
  then show ?case by simp
next
  case (2 n)
  show ?case by (simp add: parseElements_last)
next
  case (3 n m ns)
  then show ?case by (simp add: parseElements_more)
qed

lemma hd_stringifyElements:
  "ns \<noteq> [] \<Longrightarrow> \<exists>xs. stringifyElements ns = 0x7B # xs"
  by (induction ns rule: stringifyElements.induct) (simp_all add: stringifyNote_members)

lemma parseValue_notes:
  "parseValue (JSON_stringify ns @ rest) = Some (JArray (map noteJson ns), rest)"
proof (cases "ns = []")
  case True
  then show ?thesis
    by (subst parseValue.simps) (simp add: JSON_stringify_def skipWs_Cons)
next
  case False
  then obtain xs where xs: "stringifyElements ns = 0x7B # xs"
    using hd_stringifyElements by blast
  have "parseValue (0x5B # (0x7B # xs) @ 0x5D # rest) = Some (JArray (map noteJson ns), rest)"
    using parseElements_notes [OF False, of rest]
    by (subst parseValue.simps) (simp add: skipWs_Cons xs)
  then show ?thesis by (simp add: JSON_stringify_def xs)
qed

lemma JSON_parse_stringify: "JSON_parse (JSON_stringify ns) = Inr (JArray (map noteJson ns))"
  using parseValue_notes [of ns "[]"] by (simp add: JSON_parse_def skipWs_def)

lemma key_distinct:
  "js ''id'' \<noteq> js ''title''" "js ''id'' \<noteq> js ''content''" "js ''id'' \<noteq> js ''created''"
  "js ''id'' \<noteq> js ''updated''" "js ''title'' \<noteq> js ''content''" "js ''title'' \<noteq> js ''created''"
  "js ''title'' \<noteq> js ''updated''" "js ''content'' \<noteq> js ''created''"
  "js ''content'' \<noteq> js ''updated''" "js ''created'' \<noteq> js ''updated''"
  by (simp_all add: js_def)

lemma asNote_noteJson: "asNote (noteJson n) = Some n"
  by (cases "updated n")
     (simp_all add: asNote_def noteJson_def getString_def noteKeys_def key_distinct
        key_distinct [symmetric])

lemma asNoteList_noteJson: "asNoteList (map noteJson ns) = Some ns"
  by (induction ns) (simp_all add: asNote_noteJson)

lemma JSON_stringify_not_Nil [simp]: "JSON_stringify ns \<noteq> []"
  by (simp add: JSON_stringify_def)

lemma loadNotes_stringify: "loadNotes (JSON_stringify ns) = Inr ns"
  by (simp add: loadNotes_def JSON_parse_stringify asNotes_def asNoteList_noteJson)

text \<open>
  C7: parsing the text that \<open>JSON_stringify\<close> writes for a collection gives the collection
  back, with the same notes in the same order and the same \<open>id\<close>, \<open>title\<close>, \<open>content\<close>,
  \<open>created\<close> and \<open>updated\<close>; and starting the application on the storage left by the
  persistence effect mounts the collection that was persisted.
\<close>

theorem snapshot_roundtrip:
  "loadNotes (JSON_stringify ns) = Inr ns
   \<and> JSON_parse (JSON_stringify ns) = Inr (JArray (map noteJson ns))
   \<and> App (localStorage (persistEffect st))
       = Mounted (mount (notes st) (localStorage (persistEffect st)))
   \<and> notes (mount (notes st) (localStorage (persistEffect st))) = notes st"
  by (simp add: loadNotes_stringify JSON_parse_stringify asNotes_def asNoteList_noteJson
        App_def persistEffect_def perform_def mount_def)

section \<open>The theorems at concrete inputs\<close>

lemma generateId_example:
  "generateId 1700000000000 (js ''0.tkdcqjb718m'') = js ''1700000000000tkdcqjb7''"
  by (simp add: generateId_def substr_def toString10_def digits.simps digit_def js_def)

lemma JSON_stringify_example:
  \<open>JSON_stringify [todo] =
     js ''[{"id":"n2","title":"Todo","content":"call Bob","created":"2023-11-13T08:00:00.000Z","updated":"2023-11-13T09:30:00.000Z"}]''\<close>
  by (simp add: JSON_stringify_def stringifyNote_def todo_def quoteJSONString_def quoteUnit_def
        isLeadingSurrogate_def isTrailingSurrogate_def js_def)

lemma quoteJSONString_example:
  \<open>quoteJSONString [0x61, 0x22, 0x0A, 0x01, 0xD83D, 0xDE00, 0xDE00, 0xE9] =
     js ''"a'' @ [0x5C, 0x22, 0x5C, 0x6E] @ [0x5C] @ js ''u0001'' @ [0xD83D, 0xDE00, 0x5C] @ js ''ude00'' @ [0xE9, 0x22]\<close>
  by (simp add: quoteJSONString_def quoteUnit_def unicodeEscape_def hexDigit_def
        isLeadingSurrogate_def isTrailingSurrogate_def js_def)

lemma asciiLower_Nil: "asciiLower [] = []" by (simp add: asciiLower_def)

theorem filteredNotes_spec_witness:
  "asciiLower [] = []
   \<and> filteredNotes asciiLower [groceries, todo] (js ''MILK'') = [groceries]
   \<and> subseq (filteredNotes asciiLower [groceries, todo] (js ''MILK'')) [groceries, todo]
   \<and> filteredNotes asciiLower [groceries, todo] [] = [groceries, todo]"
proof -
  have h: "asciiLower [] = []" by (simp add: asciiLower_def)
  have v: "filteredNotes asciiLower [groceries, todo] (js ''MILK'') = [groceries]"
    by (simp add: filteredNotes_def asciiLower_def groceries_def todo_def js_def)
  note spec = filteredNotes_spec [of asciiLower "[groceries, todo]" "js ''MILK''", OF h]
  from spec have s: "subseq (filteredNotes asciiLower [groceries, todo] (js ''MILK'')) [groceries, todo]"
    by (rule conjunct1 [OF conjunct2])
  from spec have a: "filteredNotes asciiLower [groceries, todo] [] = [groceries, todo]"
    by (rule conjunct2 [OF conjunct2])
  from h v s a show ?thesis by (intro conjI)
qed

lemma trim_examples:
  "trim (js ''  Groceries '') = js ''Groceries''"
  "trim (js ''milk, eggs'') = js ''milk, eggs''"
  "trim (js ''milk, eggs, bread'') = js ''milk, eggs, bread''"
  "trim (js ''   '') = []"
  "trim [] = []"
  by (simp_all add: trim_def js_def isWhiteSpace_def)

theorem save_empty_rejected_witness:
  "trim (js ''   '') = [] \<and> trim [] = []
   \<and> handleSave env1 (js ''   '') [] editing =
       editing\<lparr>effects := effects editing @ [Alert (js ''Cannot save empty note!'')]\<rparr>
   \<and> notes (handleSave env1 (js ''   '') [] editing) = [groceries, todo]"
proof -
  have n: "notes editing = [groceries, todo]"
    by (simp add: editing_def handleSelectNote_def mount_def persistEffect_def perform_def)
  from save_empty_rejected [OF trim_examples(4) trim_examples(5), of env1 editing] n
  show ?thesis by (simp add: trim_examples)
qed

lemma notes_editing: "notes editing = [groceries, todo]"
  by (simp add: editing_def handleSelectNote_def mount_def persistEffect_def perform_def)

lemma notes_creating: "notes creating = []"
  by (simp add: creating_def handleCreateNoteClick_def mount_def persistEffect_def perform_def)

text \<open>A state whose selected identifier is not in the collection.\<close>

theorem save_without_target_noop_witness:
  "\<not> isCreatingNew (handleSelectNote (js ''n9'') (mount [groceries] Map.empty))
   \<and> selectedNoteId (handleSelectNote (js ''n9'') (mount [groceries] Map.empty)) = Some (js ''n9'')
   \<and> map id_note (notes (handleSelectNote (js ''n9'') (mount [groceries] Map.empty))) = [js ''n1'']
   \<and> handleSaveNote env1 (js ''a'', js ''b'') (handleSelectNote (js ''n9'') (mount [groceries] Map.empty))
       = handleSelectNote (js ''n9'') (mount [groceries] Map.empty)
   \<and> trim (js ''milk, eggs'') = js ''milk, eggs''
   \<and> handleSave env1 (js ''  Groceries '') (js ''milk, eggs'')
         (handleSelectNote (js ''n9'') (mount [groceries] Map.empty))
       = handleSelectNote (js ''n9'') (mount [groceries] Map.empty)"
proof -
  let ?st = "handleSelectNote (js ''n9'') (mount [groceries] Map.empty)"
  have h1: "\<not> isCreatingNew ?st"
    by (simp add: handleSelectNote_def)
  have sel: "selectedNoteId ?st = Some (js ''n9'')"
    by (simp add: handleSelectNote_def)
  have ids: "map id_note (notes ?st) = [js ''n1'']"
    by (simp add: handleSelectNote_def mount_def persistEffect_def perform_def groceries_def)
  have h2: "\<forall>n \<in> set (notes ?st). Some (id_note n) \<noteq> selectedNoteId ?st"
    by (simp add: handleSelectNote_def mount_def persistEffect_def perform_def groceries_def js_def)
  have h3: "trim (js ''  Groceries '') \<noteq> [] \<or> trim (js ''milk, eggs'') \<noteq> []"
    unfolding trim_examples by (simp add: js_def)
  from save_without_target_noop [OF h1 h2, of env1 "(js ''a'', js ''b'')" "js ''  Groceries ''" "js ''milk, eggs''"]
    h3
  have "handleSaveNote env1 (js ''a'', js ''b'') ?st = ?st"
    and "handleSave env1 (js ''  Groceries '') (js ''milk, eggs'') ?st = ?st"
    by blast+
  with h1 sel ids show ?thesis by (simp add: trim_examples)
qed

theorem selection_invariant_witness:
  "run asciiLower [CreateNoteClick, Save env1 (js ''  Groceries '') (js ''milk, eggs'')]
       (mount [] Map.empty)
   = Some (handleSave env1 (js ''  Groceries '') (js ''milk, eggs'') creating)
   \<and> selectedNoteId (handleSave env1 (js ''  Groceries '') (js ''milk, eggs'') creating)
       = Some (js ''1700000000000tkdcqjb7'')
   \<and> set_option (selectedNoteId (handleSave env1 (js ''  Groceries '') (js ''milk, eggs'') creating))
       \<subseteq> set (map id_note (notes (handleSave env1 (js ''  Groceries '') (js ''milk, eggs'') creating)))"
proof -
  have r: "run asciiLower [CreateNoteClick, Save env1 (js ''  Groceries '') (js ''milk, eggs'')]
       (mount [] Map.empty)
     = Some (handleSave env1 (js ''  Groceries '') (js ''milk, eggs'') creating)"
    by (simp add: editorOpen_def handleCreateNoteClick_def creating_def)
  have s: "selectedNoteId (handleSave env1 (js ''  Groceries '') (js ''milk, eggs'') creating)
       = Some (js ''1700000000000tkdcqjb7'')"
    by (simp add: handleSave_def handleSaveNote_def Let_def creating_def handleCreateNoteClick_def
          trim_examples env1_def generateId_example) (simp add: js_def)
  from selection_invariant [OF r] r s show ?thesis by blast
qed


section \<open>Two notes with one identifier, and a snapshot that does not parse\<close>

lemma trim_drafts:
  "trim (js '' a'') = js ''a''" "trim (js ''b '') = js ''b''" "trim (js '' z '') = js ''z''"
  by (simp_all add: trim_def js_def isWhiteSpace_def)

lemma drafts_not_Nil: "js ''a'' \<noteq> []" "js ''b'' \<noteq> []" "js ''z'' \<noteq> []"
  by (simp_all add: js_def)

lemma generateId_env1: "generateId (dateNow env1) (random36 env1) = js ''1700000000000tkdcqjb7''"
  by (simp add: env1_def generateId_def substr_def toString10_def digits.simps digit_def js_def)

lemma generateId_env2: "generateId (dateNow env2) (random36 env2) = js ''1700000000000tkdcqjb7''"
  by (simp add: env2_def generateId_def substr_def toString10_def digits.simps digit_def js_def)

lemma isCreatingNew_creating: "isCreatingNew creating"
  by (simp add: creating_def handleCreateNoteClick_def)

lemma firstSave:
  "handleSave env1 (js '' a'') [] creating =
     (setNotes [\<lparr>id_note = js ''1700000000000tkdcqjb7'', title = js ''a'', content = [],
                  created = js ''2023-11-14T22:13:20.000Z'', updated = None\<rparr>] creating)
       \<lparr>selectedNoteId := Some (js ''1700000000000tkdcqjb7''), isCreatingNew := False\<rparr>"
  by (simp add: handleSave_def trim_drafts trim_examples drafts_not_Nil handleSaveNote_def Let_def
        isCreatingNew_creating generateId_env1 notes_creating)
     (simp add: env1_def)

lemma notes_secondDraft:
  "notes secondDraft =
     [\<lparr>id_note = js ''1700000000000tkdcqjb7'', title = js ''a'', content = [],
        created = js ''2023-11-14T22:13:20.000Z'', updated = None\<rparr>]"
  by (simp add: secondDraft_def firstSave handleCreateNoteClick_def setNotes_fields)

lemma isCreatingNew_secondDraft: "isCreatingNew secondDraft"
  by (simp add: secondDraft_def handleCreateNoteClick_def)

lemma secondSave:
  "duplicated =
     (setNotes (\<lparr>id_note = js ''1700000000000tkdcqjb7'', title = js ''b'', content = [],
                  created = js ''2023-11-14T22:13:20.000Z'', updated = None\<rparr> # notes secondDraft)
        secondDraft)
       \<lparr>selectedNoteId := Some (js ''1700000000000tkdcqjb7''), isCreatingNew := False\<rparr>"
  by (simp add: duplicated_def handleSave_def trim_drafts trim_examples drafts_not_Nil
        handleSaveNote_def Let_def isCreatingNew_secondDraft generateId_env2)
     (simp add: env2_def)

lemma notes_duplicated:
  "notes duplicated =
     [\<lparr>id_note = js ''1700000000000tkdcqjb7'', title = js ''b'', content = [],
        created = js ''2023-11-14T22:13:20.000Z'', updated = None\<rparr>,
      \<lparr>id_note = js ''1700000000000tkdcqjb7'', title = js ''a'', content = [],
        created = js ''2023-11-14T22:13:20.000Z'', updated = None\<rparr>]"
  by (simp add: secondSave setNotes_fields notes_secondDraft)

lemma search_creating: "search creating = []"
  by (simp add: creating_def handleCreateNoteClick_def mount_def persistEffect_def perform_def)

lemma search_secondDraft: "search secondDraft = []"
  by (simp add: secondDraft_def handleCreateNoteClick_def firstSave setNotes_fields search_creating)

lemma selection_duplicated:
  "selectedNoteId duplicated = Some (js ''1700000000000tkdcqjb7'')" "\<not> isCreatingNew duplicated"
  "search duplicated = []"
  by (simp_all add: secondSave setNotes_fields search_secondDraft)

lemma editorOpen_create: "editorOpen (handleCreateNoteClick st)"
  by (simp add: editorOpen_def handleCreateNoteClick_def)

lemma run_secondDraft:
  "run asciiLower [CreateNoteClick, Save env1 (js '' a'') [], CreateNoteClick] (mount [] Map.empty)
     = Some secondDraft"
  by (simp add: editorOpen_create secondDraft_def creating_def)

lemma run_duplicated:
  "run asciiLower [CreateNoteClick, Save env1 (js '' a'') [], CreateNoteClick, Save env2 (js ''b '') []]
     (mount [] Map.empty) = Some duplicated"
  by (simp add: editorOpen_create duplicated_def secondDraft_def creating_def)

lemma editorOpen_duplicated: "editorOpen duplicated"
  by (simp add: editorOpen_def selectedNote_def notes_duplicated selection_duplicated)

lemma listed_duplicated: "listed asciiLower duplicated (js ''1700000000000tkdcqjb7'')"
  by (simp add: listed_def filteredNotes_def notes_duplicated selection_duplicated asciiLower_Nil
        includes_js_Nil)

text \<open>
  C8: two calls of \<open>generateId\<close> in the same millisecond, for two different random numbers
  that are one unit in the last place apart, return the same identifier: the eight characters
  kept of the random text are the same.
\<close>

theorem generateId_repeats:
  "dateNow env1 = dateNow env2
   \<and> random36 env1 \<noteq> random36 env2
   \<and> generateId (dateNow env1) (random36 env1) = js ''1700000000000tkdcqjb7''
   \<and> generateId (dateNow env2) (random36 env2) = js ''1700000000000tkdcqjb7''"
proof -
  have "dateNow env1 = dateNow env2" and "random36 env1 \<noteq> random36 env2"
    by (simp_all add: env1_def env2_def js_def)
  with generateId_env1 generateId_env2 show ?thesis by (intro conjI)
qed

text \<open>
  C1: after a first note has been saved and the add button pressed again, a second save in the
  same millisecond puts a note in front of the collection whose identifier is the one the
  first note already has; its title is trimmed, it has no \<open>updated\<close>, and it is selected.
\<close>

theorem create_repeats_id:
  "run asciiLower [CreateNoteClick, Save env1 (js '' a'') [], CreateNoteClick] (mount [] Map.empty)
     = Some secondDraft
   \<and> isCreatingNew secondDraft
   \<and> map id_note (notes secondDraft) = [js ''1700000000000tkdcqjb7'']
   \<and> notes (handleSave env2 (js ''b '') [] secondDraft) =
       \<lparr>id_note = js ''1700000000000tkdcqjb7'', title = js ''b'', content = [],
        created = js ''2023-11-14T22:13:20.000Z'', updated = None\<rparr> # notes secondDraft
   \<and> selectedNoteId (handleSave env2 (js ''b '') [] secondDraft) = Some (js ''1700000000000tkdcqjb7'')"
  using run_secondDraft isCreatingNew_secondDraft notes_duplicated selection_duplicated(1)
  by (simp add: notes_secondDraft duplicated_def)

text \<open>
  C4: in the collection left by these two saves, where both notes have the selected
  identifier, one save of the editor rewrites the title and sets \<open>updated\<close> in both notes.
\<close>

theorem update_rewrites_both:
  "run asciiLower [CreateNoteClick, Save env1 (js '' a'') [], CreateNoteClick, Save env2 (js ''b '') [],
                   Save env3 (js '' z '') []] (mount [] Map.empty)
     = Some (handleSave env3 (js '' z '') [] duplicated)
   \<and> selectedNoteId duplicated = Some (js ''1700000000000tkdcqjb7'')
   \<and> map id_note (notes duplicated) = [js ''1700000000000tkdcqjb7'', js ''1700000000000tkdcqjb7'']
   \<and> map title (notes duplicated) = [js ''b'', js ''a'']
   \<and> map title (notes (handleSave env3 (js '' z '') [] duplicated)) = [js ''z'', js ''z'']
   \<and> map updated (notes (handleSave env3 (js '' z '') [] duplicated))
       = [Some (js ''2023-11-14T22:13:25.000Z''), Some (js ''2023-11-14T22:13:25.000Z'')]"
proof -
  have r: "run asciiLower [CreateNoteClick, Save env1 (js '' a'') [], CreateNoteClick, Save env2 (js ''b '') [],
                   Save env3 (js '' z '') []] (mount [] Map.empty)
     = Some (handleSave env3 (js '' z '') [] duplicated)"
    by (simp add: editorOpen_create editorOpen_duplicated [unfolded duplicated_def secondDraft_def creating_def]
          duplicated_def secondDraft_def creating_def)
  have n: "notes (handleSave env3 (js '' z '') [] duplicated) =
     [\<lparr>id_note = js ''1700000000000tkdcqjb7'', title = js ''z'', content = [],
        created = js ''2023-11-14T22:13:20.000Z'', updated = Some (js ''2023-11-14T22:13:25.000Z'')\<rparr>,
      \<lparr>id_note = js ''1700000000000tkdcqjb7'', title = js ''z'', content = [],
        created = js ''2023-11-14T22:13:20.000Z'', updated = Some (js ''2023-11-14T22:13:25.000Z'')\<rparr>]"
    by (simp add: handleSave_def trim_drafts trim_examples drafts_not_Nil handleSaveNote_def
          selection_duplicated selectedNote_def notes_duplicated setNotes_fields env3_def)
  from r n show ?thesis by (simp add: selection_duplicated notes_duplicated)
qed

text \<open>
  C5: in the same collection, one confirmed delete of the listed note removes both notes.
\<close>

theorem delete_removes_both:
  "run asciiLower [CreateNoteClick, Save env1 (js '' a'') [], CreateNoteClick, Save env2 (js ''b '') [],
                   DeleteNote (js ''1700000000000tkdcqjb7'') True] (mount [] Map.empty)
     = Some (handleDeleteNote True (js ''1700000000000tkdcqjb7'') duplicated)
   \<and> length (notes duplicated) = 2
   \<and> map title (notes duplicated) = [js ''b'', js ''a'']
   \<and> notes (handleDeleteNote True (js ''1700000000000tkdcqjb7'') duplicated) = []"
proof -
  have r: "run asciiLower [CreateNoteClick, Save env1 (js '' a'') [], CreateNoteClick, Save env2 (js ''b '') [],
                   DeleteNote (js ''1700000000000tkdcqjb7'') True] (mount [] Map.empty)
     = Some (handleDeleteNote True (js ''1700000000000tkdcqjb7'') duplicated)"
    by (simp add: editorOpen_create listed_duplicated [unfolded duplicated_def secondDraft_def creating_def]
          duplicated_def secondDraft_def creating_def)
  have n: "notes (handleDeleteNote True (js ''1700000000000tkdcqjb7'') duplicated) = []"
    by (simp add: handleDeleteNote_def Let_def setNotes_fields perform_def notes_duplicated)
  from r n show ?thesis by (simp add: notes_duplicated)
qed

lemma JSON_parse_truncated: "JSON_parse truncatedSnapshot = Inl SyntaxError"
  by (simp add: truncatedSnapshot_def JSON_parse_def js_def parseValue.simps parseElements.simps
        parseMembers.simps skipWs_def isJsonWs_def consChar_def parseLiteral_def)

text \<open>
  C6: with the key missing or holding the empty string the application starts on the empty
  collection; with a snapshot that is cut off, \<open>JSON_parse\<close> raises the \<open>SyntaxError\<close> and the
  first render ends with it instead of starting on the empty collection.
\<close>

theorem App_throws_on_truncated:
  "App Map.empty = Mounted (mount [] Map.empty)
   \<and> App [js ''notes'' \<mapsto> []] = Mounted (mount [] [js ''notes'' \<mapsto> []])
   \<and> notes (mount [] Map.empty) = []
   \<and> JSON_parse truncatedSnapshot = Inl SyntaxError
   \<and> App [js ''notes'' \<mapsto> truncatedSnapshot] = Thrown SyntaxError"
proof -
  have "truncatedSnapshot \<noteq> []" by (simp add: truncatedSnapshot_def js_def)
  then show ?thesis
    by (simp add: App_def JSON_parse_truncated mount_def persistEffect_def perform_def)
qed

end
